theory Spec2Isabelle
  imports Complex_Main "HOL-Library.Char_ord"
begin

section \<open>Errors\<close>

text \<open>
  The exceptions that the notebook code can raise.  A computation that may raise returns
  \<open>py_error + 'a\<close>, with \<open>Inl\<close> for the exception.
\<close>

datatype py_error = KeyError | IndexError | RuntimeError | ValueError | FileNotFoundError

section \<open>Vocabulary codec\<close>

text \<open>
  \<^verbatim>\<open>chars = sorted(list(set(text)))\<close>: the distinct characters of the corpus in
  ascending order.  The characters of a Python \<open>str\<close> are code points, compared by code
  point; the model is parametric in a linearly ordered character type.
\<close>

definition chars :: "'c::linorder list \<Rightarrow> 'c list" where
  "chars text = sort (remdups text)"

text \<open>\<^verbatim>\<open>vocab_size = len(chars)\<close>\<close>

definition vocab_size :: "'c list \<Rightarrow> nat" where
  "vocab_size cs = length cs"

text \<open>
  A dict comprehension \<^verbatim>\<open>{k: v for ...}\<close> inserts the pairs from left to right into an
  empty dict; a later pair overwrites an earlier one with the same key.
\<close>

definition dict_of :: "('k \<times> 'v) list \<Rightarrow> ('k \<rightharpoonup> 'v)" where
  "dict_of kvs = fold (\<lambda>(k, v) m. m(k \<mapsto> v)) kvs Map.empty"

text \<open>
  \<^verbatim>\<open>stoi = {ch: i for i, ch in enumerate(chars)}\<close> and
  \<^verbatim>\<open>itos = {i: ch for i, ch in enumerate(chars)}\<close>.  The ids are Python ints.
\<close>

definition stoi :: "'c list \<Rightarrow> ('c \<rightharpoonup> int)" where
  "stoi cs = dict_of (map (\<lambda>(i, ch). (ch, int i)) (enumerate 0 cs))"

definition itos :: "'c list \<Rightarrow> (int \<rightharpoonup> 'c)" where
  "itos cs = dict_of (map (\<lambda>(i, ch). (int i, ch)) (enumerate 0 cs))"

text \<open>
  The list comprehension \<^verbatim>\<open>[d[k] for k in ks]\<close>: subscripting a dict with a key it
  does not hold raises \<open>KeyError\<close>, at the first such key.
\<close>

fun getitems :: "('k \<rightharpoonup> 'v) \<Rightarrow> 'k list \<Rightarrow> py_error + 'v list" where
  "getitems d [] = Inr []"
| "getitems d (k # ks) =
     (case d k of
        None \<Rightarrow> Inl KeyError
      | Some v \<Rightarrow> (case getitems d ks of Inl e \<Rightarrow> Inl e | Inr vs \<Rightarrow> Inr (v # vs)))"

text \<open>
  \<^verbatim>\<open>encode = lambda s: [stoi[c] for c in s]\<close> and
  \<^verbatim>\<open>decode = lambda l: "".join([itos[i] for i in l])\<close>.  Both close over the global
  dicts, which are built from the global \<open>chars\<close>; the model passes \<open>chars\<close> as the first
  argument.  Every value of \<open>itos\<close> is a one-character string, so the join is the list of
  these characters.
\<close>

definition encode :: "'c list \<Rightarrow> 'c list \<Rightarrow> py_error + int list" where
  "encode cs s = getitems (stoi cs) s"

definition decode :: "'c list \<Rightarrow> int list \<Rightarrow> py_error + 'c list" where
  "decode cs l = getitems (itos cs) l"

text \<open>
  The four assignments that build the vocabulary from the corpus, as one block.  None of
  \<open>sorted\<close>, \<open>list\<close>, \<open>set\<close>, \<open>len\<close>, \<open>enumerate\<close> or a dict comprehension raises on any
  string, and the block holds no \<open>raise\<close> and no \<open>assert\<close>: it has no failing branch.
\<close>

record 'c vocabulary =
  v_chars :: "'c list"
  v_vocab_size :: nat
  v_stoi :: "'c \<rightharpoonup> int"
  v_itos :: "int \<rightharpoonup> 'c"

definition build :: "'c::linorder list \<Rightarrow> py_error + 'c vocabulary" where
  "build text =
     (let cs = chars text
      in Inr \<lparr>v_chars = cs, v_vocab_size = vocab_size cs, v_stoi = stoi cs, v_itos = itos cs\<rparr>)"

section \<open>Bigram predictor\<close>

text \<open>
  A tensor of integers of shape \<open>(B, T)\<close> is the list of its \<open>B\<close> rows, each a list of \<open>T\<close>
  Python ints; a tensor of shape \<open>(B, T, C)\<close> is a list of \<open>B\<close> lists of \<open>T\<close> vectors of
  length \<open>C\<close>.  A list without rows does not tell \<open>T\<close>, so the statements about whole
  batches below take \<open>B > 0\<close> where the outcome depends on \<open>T\<close>.  The entries of the parameter table are float32 numbers.  The model takes
  them as real numbers: rounding, overflow and the arithmetic of infinities are outside
  it, and so is every question of whether a float32 result is finite.  The one special
  value it keeps is \<open>NaN\<close> as the mean of no numbers at all.
\<close>

text \<open>
  A comprehension or a library loop over a list whose body may raise: the first exception
  ends it.
\<close>

fun mapM :: "('a \<Rightarrow> py_error + 'b) \<Rightarrow> 'a list \<Rightarrow> py_error + 'b list" where
  "mapM f [] = Inr []"
| "mapM f (x # xs) =
     (case f x of
        Inl e \<Rightarrow> Inl e
      | Inr y \<Rightarrow> (case mapM f xs of Inl e \<Rightarrow> Inl e | Inr ys \<Rightarrow> Inr (y # ys)))"

text \<open>
  \<^verbatim>\<open>nn.Embedding(num_embeddings, embedding_dim)\<close> holds one parameter, \<open>weight\<close>, of
  shape \<open>(num_embeddings, embedding_dim)\<close>.  The class \<open>BigramLanguageModel\<close> has the
  single attribute \<open>token_embedding_table\<close>.
\<close>

record Embedding =
  num_embeddings :: nat
  embedding_dim :: nat
  weight :: "real list list"

record BigramLanguageModel =
  token_embedding_table :: Embedding

text \<open>
  \<^verbatim>\<open>__init__(self, vocab_size)\<close>:
  \<^verbatim>\<open>self.token_embedding_table = nn.Embedding(vocab_size, vocab_size)\<close>.
  The library fills the weight with random numbers; \<open>init i j\<close> is the number drawn for
  entry \<open>(i, j)\<close>.
\<close>

definition Embedding_init :: "nat \<Rightarrow> nat \<Rightarrow> (nat \<Rightarrow> nat \<Rightarrow> real) \<Rightarrow> Embedding" where
  "Embedding_init n d init =
     \<lparr>num_embeddings = n, embedding_dim = d,
      weight = map (\<lambda>i. map (\<lambda>j. init i j) [0..<d]) [0..<n]\<rparr>"

definition BigramLanguageModel_init :: "nat \<Rightarrow> (nat \<Rightarrow> nat \<Rightarrow> real) \<Rightarrow> BigramLanguageModel" where
  "BigramLanguageModel_init n init = \<lparr>token_embedding_table = Embedding_init n n init\<rparr>"

text \<open>
  Calling the embedding on a tensor of ids replaces every id by the row of \<open>weight\<close> with
  that index.  An id below 0 or not below the number of rows raises \<open>IndexError\<close>.
\<close>

definition embedding_row :: "Embedding \<Rightarrow> int \<Rightarrow> py_error + real list" where
  "embedding_row emb i =
     (if 0 \<le> i \<and> i < int (length (weight emb)) then Inr (weight emb ! nat i)
      else Inl IndexError)"

definition Embedding_forward :: "Embedding \<Rightarrow> int list list \<Rightarrow> py_error + real list list list" where
  "Embedding_forward emb idx = mapM (mapM (embedding_row emb)) idx"

text \<open>
  \<^verbatim>\<open>F.softmax(x, dim=-1)\<close> and the log-softmax inside \<^verbatim>\<open>F.cross_entropy\<close>, on one
  vector.  The library subtracts the maximum before exponentiating; over the reals this
  changes nothing.
\<close>

definition softmax :: "real list \<Rightarrow> real list" where
  "softmax x = map (\<lambda>v. exp v / (\<Sum>u\<leftarrow>x. exp u)) x"

definition log_softmax :: "real list \<Rightarrow> real list" where
  "log_softmax x = map (\<lambda>v. v - ln (\<Sum>u\<leftarrow>x. exp u)) x"

text \<open>
  \<^verbatim>\<open>F.cross_entropy(input, target)\<close> with its default arguments, for an input of shape
  \<open>(N, C)\<close> and a target of shape \<open>(N)\<close>: the negative log-softmax of each row at its
  target class, averaged over the rows whose target is not \<open>ignore_index = -100\<close>.  A
  target that is neither \<open>ignore_index\<close> nor in \<open>[0, C)\<close> raises \<open>IndexError\<close>; different
  batch sizes raise \<open>ValueError\<close>.  When no row is left the mean is \<open>0 / 0\<close>, which the
  library returns as \<open>nan\<close>.  \<open>Number r\<close> is the loss \<open>r\<close> computed over the reals; the
  float32 loss of the library is its rounding, or an infinity where float32 overflows.
\<close>

datatype loss_value = NaN | Number real

definition ignore_index :: int where
  "ignore_index = - 100"

fun nll_terms :: "(real list \<times> int) list \<Rightarrow> py_error + real list" where
  "nll_terms [] = Inr []"
| "nll_terms ((x, t) # rest) =
     (if t = ignore_index then nll_terms rest
      else if t < 0 \<or> int (length x) \<le> t then Inl IndexError
      else (case nll_terms rest of
              Inl e \<Rightarrow> Inl e
            | Inr ls \<Rightarrow> Inr (- (log_softmax x ! nat t) # ls)))"

definition mean :: "real list \<Rightarrow> loss_value" where
  "mean ls = (if ls = [] then NaN else Number (sum_list ls / real (length ls)))"

definition cross_entropy :: "real list list \<Rightarrow> int list \<Rightarrow> py_error + loss_value" where
  "cross_entropy input target =
     (if length input \<noteq> length target then Inl ValueError
      else (case nll_terms (zip input target) of
              Inl e \<Rightarrow> Inl e
            | Inr ls \<Rightarrow> Inr (mean ls)))"

text \<open>
  \<^verbatim>\<open>forward(self, idx, targets=None)\<close>.  Without targets it returns the logits of shape
  \<open>(B, T, C)\<close> and the loss \<open>None\<close>.  With targets it returns the logits after
  \<^verbatim>\<open>logits.view(B * T, C)\<close>, of shape \<open>(B * T, C)\<close>, and the cross entropy against
  \<^verbatim>\<open>targets.view(B * T)\<close>; the view of the targets raises \<open>RuntimeError\<close> when they do
  not hold \<open>B * T\<close> numbers.  \<open>forward_targets\<close> is the \<open>else\<close> branch.
\<close>

datatype logits = BTC "real list list list" | NC "real list list"

definition forward_targets ::
  "real list list list \<Rightarrow> int list list \<Rightarrow> py_error + (logits \<times> loss_value option)" where
  "forward_targets logits targets =
     (let logits' = concat logits;
          targets' = concat targets
      in if length targets' \<noteq> length logits' then Inl RuntimeError
         else (case cross_entropy logits' targets' of
                 Inl e \<Rightarrow> Inl e
               | Inr loss \<Rightarrow> Inr (NC logits', Some loss)))"

definition forward ::
  "BigramLanguageModel \<Rightarrow> int list list \<Rightarrow> int list list option
     \<Rightarrow> py_error + (logits \<times> loss_value option)" where
  "forward self idx targets =
     (case Embedding_forward (token_embedding_table self) idx of
        Inl e \<Rightarrow> Inl e
      | Inr logits \<Rightarrow>
          (case targets of
             None \<Rightarrow> Inr (BTC logits, None)
           | Some tg \<Rightarrow> forward_targets logits tg))"

text \<open>
  The body of the loop of \<open>generate\<close>, up to the draw:
  \<^verbatim>\<open>logits, loss = self(idx)\<close>, \<^verbatim>\<open>logits = logits[:, -1, :]\<close>,
  \<^verbatim>\<open>probs = F.softmax(logits, dim=-1)\<close>.  Index \<open>-1\<close> along a dimension of size 0 raises
  \<open>IndexError\<close>, as do three indices into a tensor of two dimensions.  A batch without
  rows is read as of shape \<open>(0, T)\<close> with \<open>T > 0\<close>, where the code returns a result
  without rows; shape \<open>(0, 0)\<close>, where it raises, has no representation of its own.
\<close>

definition last_time_step :: "logits \<Rightarrow> py_error + real list list" where
  "last_time_step l =
     (case l of
        BTC rows \<Rightarrow> mapM (\<lambda>r. if r = [] then Inl IndexError else Inr (last r)) rows
      | NC _ \<Rightarrow> Inl IndexError)"

definition next_token_probs :: "BigramLanguageModel \<Rightarrow> int list list \<Rightarrow> py_error + real list list" where
  "next_token_probs self idx =
     (case forward self idx None of
        Inl e \<Rightarrow> Inl e
      | Inr (logits, loss) \<Rightarrow>
          (case last_time_step logits of
             Inl e \<Rightarrow> Inl e
           | Inr logits' \<Rightarrow> Inr (map softmax logits')))"

text \<open>
  \<^verbatim>\<open>torch.multinomial(probs, num_samples=1)\<close> draws, for each row of \<open>probs\<close>, one index
  at random with the probabilities of the row; the result has shape \<open>(B, 1)\<close>.  The draw is
  a relation: every category of positive probability is a possible outcome and no other
  is.  A row without such a category raises \<open>RuntimeError\<close>.
\<close>

definition categories :: "real list \<Rightarrow> nat list" where
  "categories p = filter (\<lambda>j. 0 < p ! j) [0..<length p]"

inductive multinomial :: "real list list \<Rightarrow> py_error + int list list \<Rightarrow> bool" where
  drawn: "list_all2 (\<lambda>p s. \<exists>j \<in> set (categories p). s = [int j]) probs idx_next
            \<Longrightarrow> multinomial probs (Inr idx_next)"
| invalid: "p \<in> set probs \<Longrightarrow> categories p = [] \<Longrightarrow> multinomial probs (Inl RuntimeError)"

text \<open>
  \<^verbatim>\<open>torch.cat((idx, idx_next), dim=1)\<close> for two tensors with the same number of rows.
\<close>

definition cat :: "int list list \<Rightarrow> int list list \<Rightarrow> int list list" where
  "cat idx idx_next = map2 (@) idx idx_next"

text \<open>
  \<^verbatim>\<open>generate(self, idx, max_new_tokens)\<close>: the loop runs \<open>max_new_tokens\<close> times, none
  for a negative number, and returns the extended \<open>idx\<close>.  \<open>generate self idx k r\<close> holds
  when \<open>r\<close> is a possible outcome: a returned tensor or the exception raised.
\<close>

inductive generate_loop ::
  "BigramLanguageModel \<Rightarrow> int list list \<Rightarrow> nat \<Rightarrow> py_error + int list list \<Rightarrow> bool"
  for self :: BigramLanguageModel where
  finished: "generate_loop self idx 0 (Inr idx)"
| forward_raises: "next_token_probs self idx = Inl e \<Longrightarrow> generate_loop self idx (Suc n) (Inl e)"
| multinomial_raises:
    "next_token_probs self idx = Inr probs \<Longrightarrow> multinomial probs (Inl e)
       \<Longrightarrow> generate_loop self idx (Suc n) (Inl e)"
| step:
    "next_token_probs self idx = Inr probs \<Longrightarrow> multinomial probs (Inr idx_next)
       \<Longrightarrow> generate_loop self (cat idx idx_next) n r
       \<Longrightarrow> generate_loop self idx (Suc n) r"

definition generate ::
  "BigramLanguageModel \<Rightarrow> int list list \<Rightarrow> int \<Rightarrow> py_error + int list list \<Rightarrow> bool" where
  "generate self idx max_new_tokens r = generate_loop self idx (nat max_new_tokens) r"

code_pred multinomial .

code_pred generate_loop .

subsection \<open>Saving and loading\<close>

text \<open>
  \<^verbatim>\<open>model.state_dict()\<close> is the ordered mapping from parameter names to tensors; a
  tensor carries its shape.  \<^verbatim>\<open>load_state_dict\<close>, strict by default, raises
  \<open>RuntimeError\<close> on a missing key, an unexpected key or a tensor of another shape than
  the parameter, and otherwise copies the tensor into the parameter.
\<close>

type_synonym tensor = "(nat \<times> nat) \<times> real list list"

definition state_dict :: "BigramLanguageModel \<Rightarrow> (string \<times> tensor) list" where
  "state_dict self =
     (let emb = token_embedding_table self
      in [(''token_embedding_table.weight'',
           ((num_embeddings emb, embedding_dim emb), weight emb))])"

definition load_state_dict ::
  "BigramLanguageModel \<Rightarrow> (string \<times> tensor) list \<Rightarrow> py_error + BigramLanguageModel" where
  "load_state_dict self sd =
     (let emb = token_embedding_table self
      in case map_of sd ''token_embedding_table.weight'' of
           None \<Rightarrow> Inl RuntimeError
         | Some (shape, data) \<Rightarrow>
             if list_ex (\<lambda>(k, v). k \<noteq> ''token_embedding_table.weight'') sd
             then Inl RuntimeError
             else if shape \<noteq> (num_embeddings emb, embedding_dim emb) then Inl RuntimeError
             else Inr (self\<lparr>token_embedding_table := emb\<lparr>weight := data\<rparr>\<rparr>))"

text \<open>
  \<^verbatim>\<open>torch.save(obj, f)\<close> and \<^verbatim>\<open>torch.load(f)\<close> over the files as a mapping from
  names to saved objects.  The two notebooks name the same file relative to their own
  directories.
\<close>

definition torch_save :: "'a \<Rightarrow> string \<Rightarrow> (string \<rightharpoonup> 'a) \<Rightarrow> (string \<rightharpoonup> 'a)" where
  "torch_save obj f files = files(f \<mapsto> obj)"

definition torch_load :: "string \<Rightarrow> (string \<rightharpoonup> 'a) \<Rightarrow> py_error + 'a" where
  "torch_load f files = (case files f of None \<Rightarrow> Inl FileNotFoundError | Some obj \<Rightarrow> Inr obj)"

subsection \<open>Shapes, valid ids and the loss of the specification\<close>

text \<open>
  The invariant of a predictor for a vocabulary of size \<open>n\<close>: the table is \<open>n \<times> n\<close>.
  \<open>__init__\<close> establishes it.
\<close>

definition wf_model :: "BigramLanguageModel \<Rightarrow> nat \<Rightarrow> bool" where
  "wf_model self n \<longleftrightarrow>
     (let emb = token_embedding_table self
      in num_embeddings emb = n \<and> embedding_dim emb = n \<and> length (weight emb) = n
         \<and> list_all (\<lambda>row. length row = n) (weight emb))"

definition has_shape :: "'a list list \<Rightarrow> nat \<Rightarrow> nat \<Rightarrow> bool" where
  "has_shape x B T \<longleftrightarrow> length x = B \<and> list_all (\<lambda>row. length row = T) x"

definition has_shape3 :: "'a list list list \<Rightarrow> nat \<Rightarrow> nat \<Rightarrow> nat \<Rightarrow> bool" where
  "has_shape3 x B T C \<longleftrightarrow> length x = B \<and> list_all (\<lambda>m. has_shape m T C) x"

definition valid_ids :: "nat \<Rightarrow> int list list \<Rightarrow> bool" where
  "valid_ids n idx \<longleftrightarrow> list_all (list_all (\<lambda>i. 0 \<le> i \<and> i < int n)) idx"

definition target_ok :: "real list \<times> int \<Rightarrow> bool" where
  "target_ok p \<longleftrightarrow> 0 \<le> snd p \<and> snd p < int (length (fst p))"

text \<open>
  The loss as the specification words it, with nothing taken from the definitions above:
  the softmax probability of class \<open>j\<close> is \<open>exp (x j)\<close> over the sum of all \<open>exp (x k)\<close>, and
  the loss is minus the mean, over all \<open>B * T\<close> positions \<open>(b, t)\<close>, of the logarithm of the
  softmax probability of the target of \<open>(b, t)\<close>: the sum over the positions divided by
  their number.  Without a position there is no mean.
\<close>

definition spec_softmax :: "real list \<Rightarrow> nat \<Rightarrow> real" where
  "spec_softmax x j = exp (x ! j) / (\<Sum>k<length x. exp (x ! k))"

definition spec_loss :: "nat \<Rightarrow> nat \<Rightarrow> real list list list \<Rightarrow> int list list \<Rightarrow> loss_value" where
  "spec_loss B T logits targets =
     (if B * T = 0 then NaN
      else Number (- ((\<Sum>b<B. \<Sum>t<T.
                        ln (spec_softmax (logits ! b ! t) (nat (targets ! b ! t))))
                      / real (B * T))))"

text \<open>A predictor for a vocabulary of size 2, for the examples.\<close>

definition example_model :: BigramLanguageModel where
  "example_model =
     \<lparr>token_embedding_table =
        \<lparr>num_embeddings = 2, embedding_dim = 2, weight = [[0, 0], [1, 0]]\<rparr>\<rparr>"

section \<open>Properties of the codec\<close>

lemma distinct_chars: "distinct (chars text)"
  by (simp add: chars_def)

lemma set_chars: "set (chars text) = set text"
  by (simp add: chars_def)

lemma sorted_chars: "sorted (chars text)"
  by (simp add: chars_def)

lemma chars_sorted_list_of_set: "chars text = sorted_list_of_set (set text)"
  by (simp add: chars_def sorted_list_of_set_sort_remdups)

lemma vocab_size_chars: "vocab_size (chars text) = card (set text)"
  by (simp add: vocab_size_def chars_def length_remdups_card_conv)

lemma fold_upd_map_of:
  "fold (\<lambda>(k, v) m. m(k \<mapsto> v)) kvs m0 = m0 ++ map_of (rev kvs)"
  by (induction kvs arbitrary: m0) (auto simp: map_add_def fun_eq_iff split: option.splits)

lemma dict_of_map_of: "dict_of kvs = map_of (rev kvs)"
  by (simp add: dict_of_def fold_upd_map_of)

lemma dict_of_Some_iff:
  "distinct (map fst kvs) \<Longrightarrow> dict_of kvs k = Some v \<longleftrightarrow> (k, v) \<in> set kvs"
  by (simp add: dict_of_map_of rev_map [symmetric])

lemma itos_Some_iff:
  "itos cs i = Some c \<longleftrightarrow> 0 \<le> i \<and> i < int (length cs) \<and> cs ! nat i = c"
proof -
  let ?kvs = "map (\<lambda>(i, ch). (int i, ch)) (enumerate 0 cs)"
  have "map fst ?kvs = map int [0..<length cs]"
    by (simp add: enumerate_eq_zip map_fst_zip_take comp_def split_def
        flip: map_map[unfolded comp_def])
  then have d: "distinct (map fst ?kvs)"
    by (simp add: distinct_map inj_on_def)
  have "(i, c) \<in> set ?kvs \<longleftrightarrow> 0 \<le> i \<and> i < int (length cs) \<and> cs ! nat i = c"
    by (auto simp: in_set_enumerate_eq image_iff intro!: bexI[where x="(nat i, c)"])
  with dict_of_Some_iff[OF d] show ?thesis by (simp add: itos_def)
qed

lemma stoi_Some_iff:
  assumes "distinct cs"
  shows "stoi cs c = Some i \<longleftrightarrow> 0 \<le> i \<and> i < int (length cs) \<and> cs ! nat i = c"
proof -
  let ?kvs = "map (\<lambda>(i, ch). (ch, int i)) (enumerate 0 cs)"
  have "map fst ?kvs = map snd (enumerate 0 cs)"
    by (simp add: comp_def split_def)
  then have "map fst ?kvs = cs"
    by (simp only: map_snd_enumerate)
  then have d: "distinct (map fst ?kvs)" using assms by simp
  have "(c, i) \<in> set ?kvs \<longleftrightarrow> 0 \<le> i \<and> i < int (length cs) \<and> cs ! nat i = c"
    by (auto simp: in_set_enumerate_eq image_iff intro!: bexI[where x="(nat i, c)"])
  with dict_of_Some_iff[OF d] show ?thesis by (simp add: stoi_def)
qed

lemma stoi_itos_inverse:
  "distinct cs \<Longrightarrow> stoi cs c = Some i \<longleftrightarrow> itos cs i = Some c"
  by (simp add: stoi_Some_iff itos_Some_iff)

lemma dom_stoi: "distinct cs \<Longrightarrow> dom (stoi cs) = set cs"
proof (intro set_eqI iffI)
  fix c assume "c \<in> dom (stoi cs)" and "distinct cs"
  then show "c \<in> set cs" by (auto simp: dom_def stoi_Some_iff)
next
  fix c assume "c \<in> set cs" and d: "distinct cs"
  then obtain n where "n < length cs" "cs ! n = c" by (auto simp: in_set_conv_nth)
  then have "stoi cs c = Some (int n)" by (simp add: stoi_Some_iff[OF d])
  then show "c \<in> dom (stoi cs)" by blast
qed

lemma dom_itos: "dom (itos cs) = {0..<int (length cs)}"
  by (auto simp: dom_def itos_Some_iff)

lemma getitems_Inr_iff:
  "getitems d ks = Inr vs \<longleftrightarrow> list_all2 (\<lambda>k v. d k = Some v) ks vs"
proof (induction ks arbitrary: vs)
  case Nil
  show ?case by auto
next
  case (Cons k ks)
  then show ?case
    by (cases "d k"; cases "getitems d ks") (auto simp: list_all2_Cons1)
qed

lemma getitems_map:
  "(\<And>k. k \<in> set ks \<Longrightarrow> d k = Some (f k)) \<Longrightarrow> getitems d ks = Inr (map f ks)"
  by (simp add: getitems_Inr_iff list_all2_map2 list_all2_same)

lemma getitems_KeyError:
  "k \<in> set ks \<Longrightarrow> d k = None \<Longrightarrow> getitems d ks = Inl KeyError"
  by (induction ks) (auto split: option.splits sum.splits)

text \<open>
  The scenario of the specification: the corpus \<open>abab\<close> gives the vocabulary
  \<open>a \<mapsto> 0\<close>, \<open>b \<mapsto> 1\<close>; a character outside the corpus and an id outside the
  vocabulary raise.
\<close>

lemma encode_abab: "encode (chars ''abab'') ''ab'' = Inr [0, 1]"
  by (simp add: encode_def chars_def stoi_def dict_of_def)

lemma decode_abab: "decode (chars ''abab'') [1, 0] = Inr ''ba''"
  by (simp add: decode_def chars_def itos_def dict_of_def)

lemma encode_unknown_symbol: "encode (chars ''abab'') ''abc'' = Inl KeyError"
  by (simp add: encode_def chars_def stoi_def dict_of_def)

lemma decode_invalid_id: "decode (chars ''abab'') [1, - 1] = Inl KeyError"
  by (simp add: decode_def chars_def itos_def dict_of_def)

text \<open>
  Claim C6.  For the vocabulary built from a corpus and every text whose characters all
  occur in that corpus, encoding succeeds and decoding the ids gives the text back.
\<close>

theorem decode_encode_roundtrip:
  assumes "set text \<subseteq> set corpus"
  shows "\<exists>ids. encode (chars corpus) text = Inr ids \<and> decode (chars corpus) ids = Inr text"
proof -
  let ?cs = "chars corpus"
  have "\<forall>c\<in>set text. \<exists>i. stoi ?cs c = Some i"
    using assms dom_stoi[OF distinct_chars, of corpus] by (auto simp: set_chars dom_def)
  then obtain f where f: "\<And>c. c \<in> set text \<Longrightarrow> stoi ?cs c = Some (f c)"
    by metis
  then have enc: "encode ?cs text = Inr (map f text)"
    by (simp add: encode_def getitems_map)
  have "\<And>c. c \<in> set text \<Longrightarrow> itos ?cs (f c) = Some c"
    using f stoi_itos_inverse[OF distinct_chars] by blast
  then have "list_all2 (\<lambda>i c. itos ?cs i = Some c) (map f text) text"
    by (simp add: list_all2_map1 list_all2_same)
  then have "decode ?cs (map f text) = Inr text"
    by (simp add: decode_def getitems_Inr_iff)
  with enc show ?thesis by blast
qed

theorem decode_encode_roundtrip_witness:
  "set ''ba'' \<subseteq> set ''abab'' \<and>
   (\<exists>ids. encode (chars ''abab'') ''ba'' = Inr ids \<and> decode (chars ''abab'') ids = Inr ''ba'')"
  using decode_encode_roundtrip[of "''ba''" "''abab''"] by simp

text \<open>
  Claim C10.  For the vocabulary built from a corpus and every id sequence whose ids all
  lie in \<open>[0, size)\<close>, decoding succeeds and encoding the text gives the ids back; \<open>stoi\<close>
  and \<open>itos\<close> are inverse to each other, the one defined on the characters of the corpus
  and the other on the ids \<open>0, ..., size - 1\<close>.
\<close>

theorem encode_decode_roundtrip:
  assumes "\<forall>i\<in>set ids. 0 \<le> i \<and> i < int (vocab_size (chars corpus))"
  shows "(\<exists>text. decode (chars corpus) ids = Inr text \<and> encode (chars corpus) text = Inr ids)
       \<and> (\<forall>c i. stoi (chars corpus) c = Some i \<longleftrightarrow> itos (chars corpus) i = Some c)
       \<and> dom (stoi (chars corpus)) = set corpus
       \<and> dom (itos (chars corpus)) = {0..<int (vocab_size (chars corpus))}"
proof -
  let ?cs = "chars corpus"
  have dec: "decode ?cs ids = Inr (map (\<lambda>i. ?cs ! nat i) ids)"
    using assms by (simp add: decode_def getitems_map itos_Some_iff vocab_size_def)
  have "\<And>i. i \<in> set ids \<Longrightarrow> stoi ?cs (?cs ! nat i) = Some i"
    using assms by (simp add: stoi_Some_iff[OF distinct_chars] vocab_size_def)
  then have "list_all2 (\<lambda>c i. stoi ?cs c = Some i) (map (\<lambda>i. ?cs ! nat i) ids) ids"
    by (simp add: list_all2_map1 list_all2_same)
  then have "encode ?cs (map (\<lambda>i. ?cs ! nat i) ids) = Inr ids"
    by (simp add: encode_def getitems_Inr_iff)
  with dec have "\<exists>text. decode ?cs ids = Inr text \<and> encode ?cs text = Inr ids"
    by blast
  moreover have "\<forall>c i. stoi ?cs c = Some i \<longleftrightarrow> itos ?cs i = Some c"
    using stoi_itos_inverse[OF distinct_chars] by blast
  moreover have "dom (stoi ?cs) = set corpus"
    by (simp add: dom_stoi[OF distinct_chars] set_chars)
  moreover have "dom (itos ?cs) = {0..<int (vocab_size ?cs)}"
    by (simp add: dom_itos vocab_size_def)
  ultimately show ?thesis by blast
qed

theorem encode_decode_roundtrip_witness:
  "list_all (\<lambda>i. 0 \<le> i \<and> i < int (vocab_size (chars ''abab''))) [1, 0, 1]
   \<and> (\<exists>text. decode (chars ''abab'') [1, 0, 1] = Inr text
          \<and> encode (chars ''abab'') text = Inr [1, 0, 1])"
  using encode_decode_roundtrip[of "[1, 0, 1]" "''abab''"]
  by (simp add: vocab_size_def chars_def)

text \<open>
  Claim C7, as stated, fails: building the vocabulary of the empty corpus raises nothing.
  It returns the vocabulary of size 0.
\<close>

theorem build_empty_corpus_succeeds:
  "\<not> isl (build ([] :: char list)) \<and> v_vocab_size (projr (build ([] :: char list))) = 0"
  by (simp add: build_def chars_def vocab_size_def)

text \<open>
  Claim C7, amended.  Building a vocabulary never fails: for every corpus, empty or not,
  it returns the distinct characters of the corpus in ascending order, and the size of
  the vocabulary is their number, which is 0 exactly for the empty corpus.
\<close>

theorem build_never_fails:
  "\<exists>v. build corpus = Inr v \<and> v_chars v = sorted_list_of_set (set corpus)
       \<and> v_vocab_size v = card (set corpus) \<and> (v_vocab_size v = 0 \<longleftrightarrow> corpus = [])"
  by (simp add: build_def Let_def vocab_size_chars flip: chars_sorted_list_of_set)

theorem build_never_fails_witness:
  "\<exists>v. build ''abab'' = Inr v \<and> v_vocab_size v = 2"
  using build_never_fails[of "''abab''"] by (auto simp: card_insert_if)

section \<open>Properties of the predictor\<close>

subsection \<open>The forward pass\<close>

lemma mapM_Inr_iff:
  "mapM f xs = Inr ys \<longleftrightarrow> list_all2 (\<lambda>x y. f x = Inr y) xs ys"
proof (induction xs arbitrary: ys)
  case Nil
  show ?case by auto
next
  case (Cons x xs)
  then show ?case
    by (cases "f x"; cases "mapM f xs") (auto simp: list_all2_Cons1)
qed

lemma mapM_map:
  "(\<And>x. x \<in> set xs \<Longrightarrow> f x = Inr (g x)) \<Longrightarrow> mapM f xs = Inr (map g xs)"
  by (simp add: mapM_Inr_iff list_all2_map2 list_all2_same)

lemma mapM_raises:
  "x \<in> set xs \<Longrightarrow> (\<And>y. y \<in> set xs \<Longrightarrow> f y = Inl e) \<Longrightarrow> mapM f xs = Inl e"
  by (cases xs) auto

lemma embedding_row_valid:
  "0 \<le> i \<Longrightarrow> i < int (length (weight emb)) \<Longrightarrow> embedding_row emb i = Inr (weight emb ! nat i)"
  by (simp add: embedding_row_def)

lemma Embedding_forward_valid:
  assumes "valid_ids (length (weight emb)) idx"
  shows "Embedding_forward emb idx = Inr (map (map (\<lambda>i. weight emb ! nat i)) idx)"
  unfolding Embedding_forward_def
proof (rule mapM_map)
  fix row assume "row \<in> set idx"
  with assms have "\<And>i. i \<in> set row \<Longrightarrow> 0 \<le> i \<and> i < int (length (weight emb))"
    by (auto simp: valid_ids_def list_all_iff)
  then show "mapM (embedding_row emb) row = Inr (map (\<lambda>i. weight emb ! nat i) row)"
    by (intro mapM_map) (simp add: embedding_row_valid)
qed

lemma forward_None_valid:
  assumes "wf_model self n" "valid_ids n idx"
  shows "forward self idx None
           = Inr (BTC (map (map (\<lambda>i. weight (token_embedding_table self) ! nat i)) idx), None)"
  using assms by (simp add: forward_def wf_model_def Let_def Embedding_forward_valid)

lemma wf_model_row_length:
  "wf_model self n \<Longrightarrow> 0 \<le> i \<Longrightarrow> i < int n
     \<Longrightarrow> length (weight (token_embedding_table self) ! nat i) = n"
  by (auto simp: wf_model_def Let_def list_all_length)

lemma lookup_has_shape3:
  assumes "wf_model self n" "has_shape idx B T" "valid_ids n idx"
  shows "has_shape3 (map (map (\<lambda>i. weight (token_embedding_table self) ! nat i)) idx) B T n"
  using assms wf_model_row_length[OF assms(1)]
  by (auto simp: has_shape3_def has_shape_def valid_ids_def list_all_iff)

lemma wf_model_init: "wf_model (BigramLanguageModel_init n init) n"
  by (simp add: wf_model_def BigramLanguageModel_init_def Embedding_init_def list_all_iff)

lemma example_model_wf: "wf_model example_model 2"
  by (simp add: wf_model_def example_model_def)

text \<open>
  Claim C1.  For a predictor whose table is \<open>n \<times> n\<close> and every tensor of ids of shape
  \<open>(B, T)\<close> with all ids in \<open>[0, n)\<close>, the forward pass without targets returns logits
  of shape \<open>(B, T, n)\<close> whose vector at \<open>(b, t)\<close> is the row of the table with index
  \<open>inputs[b][t]\<close>: the logits are the element-wise row lookup and nothing else.
\<close>

theorem forward_is_row_lookup:
  assumes "wf_model self n" and "has_shape inputs B T" and "valid_ids n inputs"
  shows "\<exists>logits. forward self inputs None = Inr (BTC logits, None)
           \<and> logits = map (map (\<lambda>i. weight (token_embedding_table self) ! nat i)) inputs
           \<and> has_shape3 logits B T n
           \<and> (\<forall>b<B. \<forall>t<T. logits ! b ! t = weight (token_embedding_table self) ! nat (inputs ! b ! t))"
proof -
  let ?W = "weight (token_embedding_table self)"
  let ?logits = "map (map (\<lambda>i. ?W ! nat i)) inputs"
  have "forward self inputs None = Inr (BTC ?logits, None)"
    using assms by (simp add: forward_None_valid)
  moreover have "has_shape3 ?logits B T n"
    using assms by (rule lookup_has_shape3)
  moreover have "\<forall>b<B. \<forall>t<T. ?logits ! b ! t = ?W ! nat (inputs ! b ! t)"
    using assms(2) by (auto simp: has_shape_def list_all_length)
  ultimately show ?thesis by blast
qed

theorem forward_is_row_lookup_witness:
  "wf_model example_model 2 \<and> has_shape [[0, 1], [1, 1 :: int]] 2 2 \<and> valid_ids 2 [[0, 1], [1, 1]]
   \<and> forward example_model [[0, 1], [1, 1]] None
       = Inr (BTC [[[0, 0], [1, 0]], [[1, 0], [1, 0]]], None)"
  using forward_is_row_lookup[of example_model 2 "[[0, 1], [1, 1]]" 2 2]
  by (simp add: wf_model_def has_shape_def valid_ids_def example_model_def)

subsection \<open>The loss\<close>

lemma sum_exp_nonneg: "0 \<le> (\<Sum>u\<leftarrow>x. exp (u::real))"
  by (rule sum_list_nonneg) auto

lemma sum_exp_pos: "x \<noteq> [] \<Longrightarrow> 0 < (\<Sum>u\<leftarrow>x. exp (u::real))"
  by (cases x) (auto intro: add_pos_nonneg sum_exp_nonneg)

lemma exp_le_sum_exp: "t < length x \<Longrightarrow> exp (x ! t) \<le> (\<Sum>u\<leftarrow>x. exp (u::real))"
proof (induction x arbitrary: t)
  case Nil
  then show ?case by simp
next
  case (Cons a x)
  show ?case
  proof (cases t)
    case 0
    with sum_exp_nonneg[of x] show ?thesis by simp
  next
    case (Suc k)
    with Cons have "exp (x ! k) \<le> (\<Sum>u\<leftarrow>x. exp u)" by simp
    then show ?thesis using Suc by (simp add: add_increasing)
  qed
qed

lemma sum_list_divide: "(\<Sum>v\<leftarrow>x. f v / c) = (\<Sum>v\<leftarrow>x. f v) / (c::real)"
  by (induction x) (simp_all add: add_divide_distrib)

lemma softmax_nth: "t < length x \<Longrightarrow> softmax x ! t = exp (x ! t) / (\<Sum>u\<leftarrow>x. exp u)"
  by (simp add: softmax_def)

lemma softmax_pos: "t < length x \<Longrightarrow> 0 < softmax x ! t"
proof -
  assume t: "t < length x"
  then have "x \<noteq> []" by auto
  then have "0 < (\<Sum>u\<leftarrow>x. exp u)" by (rule sum_exp_pos)
  with t show ?thesis by (simp add: softmax_nth)
qed

lemma length_softmax: "length (softmax x) = length x"
  by (simp add: softmax_def)

lemma sum_list_softmax: "x \<noteq> [] \<Longrightarrow> sum_list (softmax x) = 1"
proof -
  assume "x \<noteq> []"
  then have "(\<Sum>u\<leftarrow>x. exp u) \<noteq> 0" using sum_exp_pos[of x] by simp
  moreover have "sum_list (softmax x) = (\<Sum>u\<leftarrow>x. exp u) / (\<Sum>u\<leftarrow>x. exp u)"
    by (simp add: softmax_def sum_list_divide)
  ultimately show ?thesis by simp
qed

lemma log_softmax_nth:
  assumes "t < length x"
  shows "log_softmax x ! t = ln (softmax x ! t)"
proof -
  from assms have "x \<noteq> []" by auto
  then have "0 < (\<Sum>u\<leftarrow>x. exp u)" by (rule sum_exp_pos)
  then have "ln (exp (x ! t) / (\<Sum>u\<leftarrow>x. exp u)) = x ! t - ln (\<Sum>u\<leftarrow>x. exp u)"
    by (simp add: ln_div)
  with assms show ?thesis by (simp add: log_softmax_def softmax_nth)
qed

lemma log_softmax_nonpos:
  assumes "t < length x"
  shows "log_softmax x ! t \<le> 0"
proof -
  have "exp (x ! t) \<le> (\<Sum>u\<leftarrow>x. exp u)" using assms by (rule exp_le_sum_exp)
  then have "ln (exp (x ! t)) \<le> ln (\<Sum>u\<leftarrow>x. exp u)"
    by (subst ln_le_cancel_iff) (auto intro: less_le_trans[OF exp_gt_zero])
  with assms show ?thesis by (simp add: log_softmax_def)
qed

lemma nll_terms_valid:
  "list_all target_ok xts \<Longrightarrow>
     nll_terms xts = Inr (map (\<lambda>(x, t). - (log_softmax x ! nat t)) xts)"
  by (induction xts) (auto simp: target_ok_def ignore_index_def)

lemma cross_entropy_valid:
  "length input = length target \<Longrightarrow> list_all target_ok (zip input target) \<Longrightarrow>
     cross_entropy input target
       = Inr (mean (map (\<lambda>(x, t). - (log_softmax x ! nat t)) (zip input target)))"
  by (simp add: cross_entropy_def nll_terms_valid)

lemma length_concat_shape: "has_shape x B T \<Longrightarrow> length (concat x) = B * T"
proof -
  assume "has_shape x B T"
  then have "map length x = replicate B T"
    by (auto simp: has_shape_def list_all_iff intro!: nth_equalityI)
  then show ?thesis by (simp add: length_concat sum_list_replicate)
qed

lemma zip_concat:
  "list_all2 (\<lambda>x y. length x = length y) xs ys \<Longrightarrow>
     zip (concat xs) (concat ys) = concat (map (\<lambda>(x, y). zip x y) (zip xs ys))"
  by (induction rule: list_all2_induct) auto

lemma map_upt_nth2:
  "length xs = length ys \<Longrightarrow>
     map (\<lambda>i. h (xs ! i) (ys ! i)) [0..<length xs] = map (\<lambda>(x, y). h x y) (zip xs ys)"
  by (rule nth_equalityI) auto

lemma concat_positions:
  assumes "list_all2 (\<lambda>x y. length x = length y) xs ys"
  shows "[g (xs ! b ! t) (ys ! b ! t). b \<leftarrow> [0..<length xs], t \<leftarrow> [0..<length (xs ! b)]]
           = map (\<lambda>(x, y). g x y) (zip (concat xs) (concat ys))"
proof -
  from assms have len: "length xs = length ys" by (rule list_all2_lengthD)
  have "map (\<lambda>b. map (\<lambda>t. g (xs ! b ! t) (ys ! b ! t)) [0..<length (xs ! b)]) [0..<length xs]
          = map (\<lambda>(x, y). map (\<lambda>t. g (x ! t) (y ! t)) [0..<length x]) (zip xs ys)"
    using map_upt_nth2[OF len, of "\<lambda>x y. map (\<lambda>t. g (x ! t) (y ! t)) [0..<length x]"] .
  also have "\<dots> = map (\<lambda>(x, y). map (\<lambda>(u, v). g u v) (zip x y)) (zip xs ys)"
  proof (rule map_cong[OF refl])
    fix p assume "p \<in> set (zip xs ys)"
    with assms have "length (fst p) = length (snd p)"
      by (auto simp: list_all2_iff)
    then show "(case p of (x, y) \<Rightarrow> map (\<lambda>t. g (x ! t) (y ! t)) [0..<length x])
                 = (case p of (x, y) \<Rightarrow> map (\<lambda>(u, v). g u v) (zip x y))"
      using map_upt_nth2[of "fst p" "snd p" g] by (simp add: split_def)
  qed
  finally show ?thesis
    by (simp add: zip_concat[OF assms] map_concat comp_def split_def)
qed

lemma shapes_list_all2:
  "has_shape3 logits B T C \<Longrightarrow> has_shape targets B T \<Longrightarrow>
     list_all2 (\<lambda>x y. length x = length y) logits targets"
  by (auto simp: has_shape3_def has_shape_def list_all2_conv_all_nth list_all_length)

lemma zipped_target_ok:
  assumes "has_shape3 logits B T C" "has_shape targets B T" "valid_ids C targets"
  shows "list_all target_ok (zip (concat logits) (concat targets))"
proof -
  have "\<And>x. x \<in> set (concat logits) \<Longrightarrow> length x = C"
    using assms(1) by (auto simp: has_shape3_def has_shape_def list_all_iff)
  moreover have "\<And>t. t \<in> set (concat targets) \<Longrightarrow> 0 \<le> t \<and> t < int C"
    using assms(3) by (auto simp: valid_ids_def list_all_iff)
  ultimately have "\<And>x t. (x, t) \<in> set (zip (concat logits) (concat targets)) \<Longrightarrow> target_ok (x, t)"
    unfolding target_ok_def by (metis fst_conv snd_conv set_zip_leftD set_zip_rightD)
  then show ?thesis by (auto simp: list_all_iff)
qed

lemma forward_targets_valid:
  assumes "has_shape3 logits B T C" "has_shape targets B T" "valid_ids C targets"
  shows "forward_targets logits targets
           = Inr (NC (concat logits),
                  Some (mean (map (\<lambda>(x, t). - (log_softmax x ! nat t))
                               (zip (concat logits) (concat targets)))))"
proof -
  have "has_shape logits B T"
    using assms(1) by (auto simp: has_shape3_def has_shape_def list_all_iff)
  then have "length (concat logits) = B * T" by (rule length_concat_shape)
  moreover have "length (concat targets) = B * T" using assms(2) by (rule length_concat_shape)
  ultimately show ?thesis
    using zipped_target_ok[OF assms]
    by (simp add: forward_targets_def Let_def cross_entropy_valid)
qed

lemma sum_list_concat_map: "sum_list (concat xss) = sum_list (map sum_list xss)"
  by (induction xss) auto

lemma sum_list_map_nth: "sum_list (map f xs) = (\<Sum>k<length xs. f (xs ! k))"
proof -
  have "sum_list (map f xs) = (\<Sum>k = 0..<length (map f xs). map f xs ! k)"
    by (rule sum_list_sum_nth)
  also have "\<dots> = (\<Sum>k = 0..<length xs. f (xs ! k))"
    by (rule sum.cong) auto
  finally show ?thesis by (simp add: lessThan_atLeast0)
qed

lemma log_softmax_spec:
  assumes "j < length x"
  shows "log_softmax x ! j = ln (spec_softmax x j)"
proof -
  have "spec_softmax x j = softmax x ! j"
    using assms by (simp add: spec_softmax_def softmax_nth sum_list_map_nth)
  with assms show ?thesis by (simp add: log_softmax_nth)
qed

lemma sum_positions:
  assumes "has_shape3 logits B T C" "has_shape targets B T"
  shows "sum_list (map (\<lambda>(x, t). g x t) (zip (concat logits) (concat targets)))
           = (\<Sum>b<B. \<Sum>t<T. g (logits ! b ! t) (targets ! b ! t))"
proof -
  from assms(1) have B: "length logits = B" and T: "\<And>b. b < B \<Longrightarrow> length (logits ! b) = T"
    by (auto simp: has_shape3_def has_shape_def list_all_length)
  have "sum_list (map (\<lambda>(x, t). g x t) (zip (concat logits) (concat targets)))
          = sum_list (concat (map (\<lambda>b. map (\<lambda>t. g (logits ! b ! t) (targets ! b ! t))
                                        [0..<length (logits ! b)]) [0..<length logits]))"
    using concat_positions[OF shapes_list_all2[OF assms], of g] by simp
  also have "\<dots> = (\<Sum>b = 0..<B. sum_list (map (\<lambda>t. g (logits ! b ! t) (targets ! b ! t))
                                          [0..<length (logits ! b)]))"
    by (simp add: sum_list_concat_map comp_def interv_sum_list_conv_sum_set_nat B)
  also have "\<dots> = (\<Sum>b = 0..<B. \<Sum>t = 0..<T. g (logits ! b ! t) (targets ! b ! t))"
    by (rule sum.cong) (simp_all add: T interv_sum_list_conv_sum_set_nat)
  finally show ?thesis by (simp add: lessThan_atLeast0)
qed

lemma spec_loss_eq:
  assumes "has_shape3 logits B T C" "has_shape targets B T" "valid_ids C targets"
  shows "mean (map (\<lambda>(x, t). - (log_softmax x ! nat t)) (zip (concat logits) (concat targets)))
           = spec_loss B T logits targets"
proof -
  let ?z = "zip (concat logits) (concat targets)"
  let ?terms = "map (\<lambda>(x, t). - (log_softmax x ! nat t)) ?z"
  have "has_shape logits B T"
    using assms(1) by (auto simp: has_shape3_def has_shape_def list_all_iff)
  then have "length (concat logits) = B * T" by (rule length_concat_shape)
  moreover have "length (concat targets) = B * T" using assms(2) by (rule length_concat_shape)
  ultimately have len: "length ?terms = B * T" by simp
  show ?thesis
  proof (cases "B * T = 0")
    case True
    with len have "?terms = []" by (simp only: length_0_conv)
    with True show ?thesis by (simp add: mean_def spec_loss_def)
  next
    case False
    with len have "0 < length ?terms" by simp
    then have ne: "?terms \<noteq> []" unfolding length_greater_0_conv .
    have ok: "nat (targets ! b ! t) < length (logits ! b ! t)" if "b < B" "t < T" for b t
    proof -
      from assms(1) that have "length (logits ! b ! t) = C"
        by (auto simp: has_shape3_def has_shape_def list_all_length)
      moreover from assms(2,3) that have "0 \<le> targets ! b ! t \<and> targets ! b ! t < int C"
        by (auto simp: has_shape_def valid_ids_def list_all_length)
      ultimately show ?thesis by linarith
    qed
    have "sum_list ?terms
            = (\<Sum>b<B. \<Sum>t<T. - (log_softmax (logits ! b ! t) ! nat (targets ! b ! t)))"
      using sum_positions[OF assms(1,2), of "\<lambda>x t. - (log_softmax x ! nat t)"] .
    also have "\<dots> = (\<Sum>b<B. \<Sum>t<T.
                         - ln (spec_softmax (logits ! b ! t) (nat (targets ! b ! t))))"
      by (intro sum.cong refl) (simp add: log_softmax_spec ok)
    also have "\<dots> = - (\<Sum>b<B. \<Sum>t<T.
                         ln (spec_softmax (logits ! b ! t) (nat (targets ! b ! t))))"
      by (simp add: sum_negf)
    finally have "sum_list ?terms / real (length ?terms)
        = - ((\<Sum>b<B. \<Sum>t<T. ln (spec_softmax (logits ! b ! t) (nat (targets ! b ! t))))
             / real (B * T))"
      by (simp only: len minus_divide_left)
    with ne False show ?thesis by (simp only: mean_def spec_loss_def if_False)
  qed
qed

lemma forward_Some_valid:
  assumes "wf_model self n" "has_shape inputs B T" "valid_ids n inputs"
    and "has_shape targets B T" "valid_ids n targets"
  shows "forward self inputs (Some targets)
           = forward_targets (map (map (\<lambda>i. weight (token_embedding_table self) ! nat i)) inputs)
               targets"
  using assms by (simp add: forward_def wf_model_def Let_def Embedding_forward_valid)

lemma concat_has_shape:
  assumes "has_shape3 logits B T C"
  shows "has_shape (concat logits) (B * T) C"
proof -
  have "has_shape logits B T"
    using assms by (auto simp: has_shape3_def has_shape_def list_all_iff)
  then have "length (concat logits) = B * T" by (rule length_concat_shape)
  moreover have "list_all (\<lambda>row. length row = C) (concat logits)"
    using assms by (auto simp: has_shape3_def has_shape_def list_all_iff)
  ultimately show ?thesis by (simp add: has_shape_def)
qed

lemma forward_loss_is_spec_loss:
  assumes "wf_model self n" "has_shape inputs B T" "valid_ids n inputs"
    and "has_shape targets B T" "valid_ids n targets"
  shows "\<exists>logits. forward self inputs None = Inr (BTC logits, None)
           \<and> forward self inputs (Some targets)
               = Inr (NC (concat logits), Some (spec_loss B T logits targets))"
proof -
  let ?logits = "map (map (\<lambda>i. weight (token_embedding_table self) ! nat i)) inputs"
  have shape: "has_shape3 ?logits B T n"
    using assms(1,2,3) by (rule lookup_has_shape3)
  have "forward self inputs (Some targets)
          = Inr (NC (concat ?logits), Some (spec_loss B T ?logits targets))"
    using forward_Some_valid[OF assms] forward_targets_valid[OF shape assms(4,5)]
      spec_loss_eq[OF shape assms(4,5)]
    by simp
  moreover have "forward self inputs None = Inr (BTC ?logits, None)"
    using assms(1,3) by (rule forward_None_valid)
  ultimately show ?thesis by blast
qed

lemma mean_nonneg:
  assumes "ls \<noteq> []" and "\<And>l. l \<in> set ls \<Longrightarrow> 0 \<le> l"
  shows "\<exists>m. mean ls = Number m \<and> 0 \<le> m"
proof -
  have "0 \<le> sum_list ls" using assms(2) by (rule sum_list_nonneg)
  then have "0 \<le> sum_list ls / real (length ls)" by simp
  with assms(1) show ?thesis by (simp add: mean_def)
qed

lemma forward_targets_nonneg:
  assumes "has_shape3 logits B T C" "has_shape targets B T" "valid_ids C targets"
    and "0 < B" "0 < T"
  shows "\<exists>l. forward_targets logits targets = Inr (NC (concat logits), Some (Number l)) \<and> 0 \<le> l"
proof -
  let ?z = "zip (concat logits) (concat targets)"
  let ?terms = "map (\<lambda>(x, t). - (log_softmax x ! nat t)) ?z"
  have "has_shape logits B T"
    using assms(1) by (auto simp: has_shape3_def has_shape_def list_all_iff)
  then have "length (concat logits) = B * T" by (rule length_concat_shape)
  moreover have "length (concat targets) = B * T" using assms(2) by (rule length_concat_shape)
  ultimately have "length ?terms = B * T" by simp
  with assms(4,5) have "0 < length ?terms" by simp
  then have ne: "?terms \<noteq> []" unfolding length_greater_0_conv .
  have "0 \<le> l" if "l \<in> set ?terms" for l
  proof -
    from that obtain x t where p: "(x, t) \<in> set ?z" and l: "l = - (log_softmax x ! nat t)"
      by auto
    from p zipped_target_ok[OF assms(1,2,3)] have "target_ok (x, t)"
      by (simp add: list_all_iff)
    then have "nat t < length x" by (auto simp: target_ok_def)
    then have "log_softmax x ! nat t \<le> 0" by (rule log_softmax_nonpos)
    with l show ?thesis by simp
  qed
  with ne obtain m where "mean ?terms = Number m" "0 \<le> m"
    using mean_nonneg by blast
  then show ?thesis
    using forward_targets_valid[OF assms(1,2,3)] by simp
qed

lemma spec_loss_example:
  "spec_loss 2 2 [[[0, ln 3], [0, 0]], [[0, 0], [ln 3, 0]]] [[0, 1], [0, 0]]
     = Number (- ((ln (1 / 4) + ln (1 / 2) + ln (1 / 2) + ln (3 / 4)) / 4))"
  by (simp add: spec_loss_def spec_softmax_def lessThan_Suc numeral_2_eq_2)

text \<open>
  Claim C2.  For logits of shape \<open>(B, T, C)\<close> and targets of shape \<open>(B, T)\<close> with entries
  in \<open>[0, C)\<close>, the loss that the forward pass computes for given targets is the loss of
  the specification: minus the sum, over all \<open>B * T\<close> positions, of the logarithm of the
  softmax probability of the target, divided by \<open>B * T\<close>.
\<close>

theorem loss_is_cross_entropy:
  assumes "has_shape3 logits B T C" and "has_shape targets B T" and "valid_ids C targets"
  shows "forward_targets logits targets
           = Inr (NC (concat logits), Some (spec_loss B T logits targets))"
  using assms by (simp add: forward_targets_valid spec_loss_eq)

theorem loss_is_cross_entropy_witness:
  "has_shape3 [[[0, ln 3], [0, 0]], [[0, 0], [ln 3, 0 :: real]]] 2 2 2
   \<and> has_shape [[0, 1], [0, 0 :: int]] 2 2 \<and> valid_ids 2 [[0, 1], [0, 0]]
   \<and> forward_targets [[[0, ln 3], [0, 0]], [[0, 0], [ln 3, 0]]] [[0, 1], [0, 0]]
       = Inr (NC [[0, ln 3], [0, 0], [0, 0], [ln 3, 0]],
              Some (Number (- ((ln (1 / 4) + ln (1 / 2) + ln (1 / 2) + ln (3 / 4)) / 4))))"
proof -
  have h: "has_shape3 [[[0, ln 3], [0, 0]], [[0, 0], [ln 3, 0 :: real]]] 2 2 2"
      "has_shape [[0, 1], [0, 0 :: int]] 2 2" "valid_ids 2 [[0, 1], [0, 0]]"
    by (simp_all add: has_shape3_def has_shape_def valid_ids_def)
  from loss_is_cross_entropy[OF h] h show ?thesis
    by (simp only: spec_loss_example) simp
qed

text \<open>
  Claim C8 speaks of a finite loss.  Whether the float32 loss is finite depends on where
  float32 overflows, which the reals of this model do not; the claim is not stated here.
  What the model shows of the loss: without a position it is \<open>NaN\<close>, and with at least
  one position its value over the reals is not negative.
\<close>

lemma forward_empty_batch_nan:
  "has_shape [[] :: int list] 1 0 \<and> valid_ids 2 [[]]
   \<and> forward example_model [[]] (Some [[]]) = Inr (NC [], Some NaN)"
  by (simp add: has_shape_def valid_ids_def forward_def example_model_def Embedding_forward_def
      forward_targets_def cross_entropy_def mean_def)

lemma forward_shape_and_loss:
  assumes "wf_model self n" and "has_shape inputs B T" and "valid_ids n inputs"
    and "has_shape targets B T" and "valid_ids n targets" and "0 < B" and "0 < T"
  shows "(\<exists>logits. forward self inputs None = Inr (BTC logits, None) \<and> has_shape3 logits B T n)
       \<and> (\<exists>flat l. forward self inputs (Some targets) = Inr (NC flat, Some (Number l))
             \<and> has_shape flat (B * T) n \<and> 0 \<le> l)"
proof -
  let ?logits = "map (map (\<lambda>i. weight (token_embedding_table self) ! nat i)) inputs"
  have shape: "has_shape3 ?logits B T n"
    using assms(1,2,3) by (rule lookup_has_shape3)
  have "forward self inputs None = Inr (BTC ?logits, None)"
    using assms(1,3) by (rule forward_None_valid)
  with shape have "\<exists>logits. forward self inputs None = Inr (BTC logits, None)
      \<and> has_shape3 logits B T n"
    by blast
  moreover have "\<exists>flat l. forward self inputs (Some targets) = Inr (NC flat, Some (Number l))
      \<and> has_shape flat (B * T) n \<and> 0 \<le> l"
    using forward_targets_nonneg[OF shape assms(4,5,6,7)] forward_Some_valid[OF assms(1-5)]
      concat_has_shape[OF shape]
    by auto
  ultimately show ?thesis by blast
qed

lemma forward_shape_and_loss_example:
  "wf_model example_model 2 \<and> has_shape [[0 :: int]] 1 1 \<and> valid_ids 2 [[0]]
   \<and> has_shape [[1 :: int]] 1 1 \<and> valid_ids 2 [[1]]
   \<and> forward example_model [[0]] None = Inr (BTC [[[0, 0]]], None)
   \<and> forward example_model [[0]] (Some [[1]]) = Inr (NC [[0, 0]], Some (Number (ln 2)))"
proof -
  have h: "wf_model example_model 2" "has_shape [[0 :: int]] 1 1" "valid_ids 2 [[0]]"
      "has_shape [[1 :: int]] 1 1" "valid_ids 2 [[1]]"
    by (simp_all add: example_model_wf has_shape_def valid_ids_def)
  have f: "forward example_model [[0]] None = Inr (BTC [[[0, 0]]], None)"
    by (simp add: forward_def example_model_def Embedding_forward_def embedding_row_def)
  from forward_shape_and_loss[OF h] obtain flat l
    where "forward example_model [[0]] (Some [[1]]) = Inr (NC flat, Some (Number l))"
    by auto
  moreover have "forward example_model [[0]] (Some [[1]])
      = Inr (NC [[0, 0]], Some (mean [- (log_softmax [0, 0] ! 1)]))"
    by (simp add: forward_def example_model_def Embedding_forward_def embedding_row_def
        forward_targets_def cross_entropy_def ignore_index_def)
  moreover have "mean [- (log_softmax [0, 0] ! 1)] = Number (ln 2)"
    by (simp add: mean_def log_softmax_def)
  ultimately show ?thesis using h f by simp
qed

subsection \<open>Generation\<close>

lemma last_time_step_nonempty:
  "list_all (\<lambda>r. r \<noteq> []) rows \<Longrightarrow> last_time_step (BTC rows) = Inr (map last rows)"
  by (simp add: last_time_step_def list_all_iff mapM_map)

lemma last_time_step_Inr_nonempty:
  "last_time_step (BTC rows) = Inr ys \<Longrightarrow> list_all (\<lambda>r. r \<noteq> []) rows"
  by (auto simp: last_time_step_def mapM_Inr_iff list_all_iff list_all2_conv_all_nth in_set_conv_nth
      split: if_splits)

lemma next_token_probs_valid:
  assumes "wf_model self n" "valid_ids n idx" "list_all (\<lambda>row. row \<noteq> []) idx"
  shows "next_token_probs self idx
           = Inr (map (\<lambda>i. softmax (weight (token_embedding_table self) ! nat i)) (map last idx))"
proof -
  let ?look = "\<lambda>i. weight (token_embedding_table self) ! nat i"
  have "list_all (\<lambda>r. r \<noteq> []) (map (map ?look) idx)"
    using assms(3) by (simp add: list_all_iff)
  then have "last_time_step (BTC (map (map ?look) idx)) = Inr (map last (map (map ?look) idx))"
    by (rule last_time_step_nonempty)
  moreover have "map last (map (map ?look) idx) = map ?look (map last idx)"
    using assms(3) by (simp add: list_all_iff last_map)
  ultimately show ?thesis
    using assms(1,2) by (simp add: next_token_probs_def forward_None_valid comp_def)
qed

lemma next_token_probs_Inr_nonempty:
  assumes "wf_model self n" "valid_ids n idx" "next_token_probs self idx = Inr probs"
  shows "list_all (\<lambda>row. row \<noteq> []) idx"
proof -
  let ?look = "\<lambda>i. weight (token_embedding_table self) ! nat i"
  from assms obtain ys where "last_time_step (BTC (map (map ?look) idx)) = Inr ys"
    by (auto simp: next_token_probs_def forward_None_valid split: sum.splits)
  then have "list_all (\<lambda>r. r \<noteq> []) (map (map ?look) idx)"
    by (rule last_time_step_Inr_nonempty)
  then show ?thesis by (simp add: list_all_iff)
qed

lemma categories_softmax: "categories (softmax x) = [0..<length x]"
proof -
  have "filter (\<lambda>j. 0 < softmax x ! j) [0..<length x] = [0..<length x]"
    by (intro filter_True ballI) (simp add: softmax_pos)
  then show ?thesis by (simp add: categories_def length_softmax)
qed

inductive_simps multinomial_Inr: "multinomial probs (Inr idx_next)"

inductive_simps multinomial_Inl: "multinomial probs (Inl e)"

lemma valid_last:
  "valid_ids n idx \<Longrightarrow> list_all (\<lambda>row. row \<noteq> []) idx \<Longrightarrow> row \<in> set idx
     \<Longrightarrow> 0 \<le> last row \<and> last row < int n"
  by (auto simp: valid_ids_def list_all_iff)

lemma multinomial_next_Inr:
  assumes "wf_model self n" "valid_ids n idx" "list_all (\<lambda>row. row \<noteq> []) idx"
  shows "multinomial (map (\<lambda>i. softmax (weight (token_embedding_table self) ! nat i)) (map last idx))
           (Inr idx_next)
         \<longleftrightarrow> list_all2 (\<lambda>row s. \<exists>j<n. s = [int j]) idx idx_next"
proof -
  have len: "\<And>row. row \<in> set idx \<Longrightarrow>
      length (weight (token_embedding_table self) ! nat (last row)) = n"
    using valid_last[OF assms(2,3)] wf_model_row_length[OF assms(1)] by blast
  have "list_all2 (\<lambda>row s. \<exists>j \<in> set (categories
            (softmax (weight (token_embedding_table self) ! nat (last row)))). s = [int j]) idx idx_next
        \<longleftrightarrow> list_all2 (\<lambda>row s. \<exists>j<n. s = [int j]) idx idx_next"
    by (rule list.rel_cong) (auto simp: categories_softmax len)
  then show ?thesis
    by (simp add: multinomial_Inr list_all2_map1)
qed

lemma multinomial_next_no_error:
  assumes "wf_model self n" "valid_ids n idx" "list_all (\<lambda>row. row \<noteq> []) idx"
  shows "\<not> multinomial (map (\<lambda>i. softmax (weight (token_embedding_table self) ! nat i)) (map last idx))
           (Inl e)"
proof
  assume "multinomial (map (\<lambda>i. softmax (weight (token_embedding_table self) ! nat i)) (map last idx))
           (Inl e)"
  then obtain row where row: "row \<in> set idx"
      and "categories (softmax (weight (token_embedding_table self) ! nat (last row))) = []"
    by (auto simp: multinomial_Inl)
  then have "length (weight (token_embedding_table self) ! nat (last row)) = 0"
    by (simp add: categories_softmax)
  moreover have "0 \<le> last row \<and> last row < int n"
    using valid_last[OF assms(2,3) row] .
  ultimately show False
    using wf_model_row_length[OF assms(1), of "last row"] by simp
qed

lemma cat_draw:
  assumes "list_all2 (\<lambda>row s. \<exists>j<n. s = [int j]) idx idx_next"
  shows "length (cat idx idx_next) = length idx"
    and "valid_ids n idx \<Longrightarrow> valid_ids n (cat idx idx_next)"
    and "list_all (\<lambda>row. length row = T) idx \<Longrightarrow> list_all (\<lambda>row. length row = Suc T) (cat idx idx_next)"
    and "list_all (\<lambda>row. length row = T) idx \<Longrightarrow> map (take T) (cat idx idx_next) = idx"
  using assms
  by (induction rule: list_all2_induct) (auto simp: cat_def valid_ids_def)

lemma generate_loop_returns:
  assumes "wf_model self n"
  shows "generate_loop self idx k r \<Longrightarrow> valid_ids n idx \<Longrightarrow> has_shape idx B T \<Longrightarrow> 0 < T
           \<Longrightarrow> \<exists>out. r = Inr out \<and> valid_ids n out \<and> has_shape out B (T + k)
                  \<and> map (take T) out = idx"
proof (induction arbitrary: T rule: generate_loop.induct)
  case (finished idx)
  then show ?case by (auto simp: has_shape_def list_all_iff intro: map_idI)
next
  case (forward_raises idx e k)
  then have "list_all (\<lambda>row. row \<noteq> []) idx"
    by (auto simp: has_shape_def list_all_iff)
  with forward_raises assms show ?case by (simp add: next_token_probs_valid)
next
  case (multinomial_raises idx probs e k)
  then have ne: "list_all (\<lambda>row. row \<noteq> []) idx"
    by (auto simp: has_shape_def list_all_iff)
  with multinomial_raises assms show ?case
    using multinomial_next_no_error[of self n idx e] by (simp add: next_token_probs_valid)
next
  case (step idx probs idx_next k r)
  then have ne: "list_all (\<lambda>row. row \<noteq> []) idx"
    by (auto simp: has_shape_def list_all_iff)
  with step assms have draw: "list_all2 (\<lambda>row s. \<exists>j<n. s = [int j]) idx idx_next"
    using multinomial_next_Inr[of self n idx idx_next] by (simp add: next_token_probs_valid)
  from step.prems have shp: "list_all (\<lambda>row. length row = T) idx" and B: "length idx = B"
    by (simp_all add: has_shape_def)
  have "valid_ids n (cat idx idx_next)"
    using cat_draw(2)[OF draw] step.prems by simp
  moreover have "has_shape (cat idx idx_next) B (Suc T)"
    using cat_draw(1)[OF draw] cat_draw(3)[OF draw shp] B by (simp add: has_shape_def)
  ultimately obtain out where out: "r = Inr out" "valid_ids n out" "has_shape out B (Suc T + k)"
      "map (take (Suc T)) out = cat idx idx_next"
    using step.IH[of "Suc T"] step.prems(1) by auto
  have "map (take T) out = map (take T) (map (take (Suc T)) out)"
    by (simp add: comp_def min_def)
  also have "\<dots> = idx"
    using out(4) cat_draw(4)[OF draw shp] by simp
  finally show ?case using out by simp
qed

lemma generate_loop_exists:
  assumes "wf_model self n" and "0 < n"
  shows "valid_ids n idx \<Longrightarrow> list_all (\<lambda>row. row \<noteq> []) idx
           \<Longrightarrow> \<exists>out. generate_loop self idx k (Inr out)"
proof (induction k arbitrary: idx)
  case 0
  show ?case by (blast intro: generate_loop.finished)
next
  case (Suc k)
  let ?probs = "map (\<lambda>i. softmax (weight (token_embedding_table self) ! nat i)) (map last idx)"
  let ?next = "map (\<lambda>row. [0::int]) idx"
  have probs: "next_token_probs self idx = Inr ?probs"
    using assms(1) Suc.prems by (rule next_token_probs_valid)
  have draw: "list_all2 (\<lambda>row s. \<exists>j<n. s = [int j]) idx ?next"
    using assms(2) by (auto simp: list_all2_map2 list_all2_same intro: exI[where x=0])
  then have mult: "multinomial ?probs (Inr ?next)"
    using multinomial_next_Inr[OF assms(1) Suc.prems] by simp
  have "valid_ids n (cat idx ?next)"
    using cat_draw(2)[OF draw] Suc.prems(1) by simp
  moreover have "list_all (\<lambda>row. row \<noteq> []) (cat idx ?next)"
    by (simp add: cat_def list_all_iff zip_map2 split_def)
  ultimately obtain out where "generate_loop self (cat idx ?next) k (Inr out)"
    using Suc.IH by blast
  with probs mult show ?case by (blast intro: generate_loop.step)
qed

lemma generate_loop_valid:
  assumes "wf_model self n"
  shows "generate_loop self idx k r \<Longrightarrow> valid_ids n idx \<Longrightarrow> r = Inr out \<Longrightarrow> valid_ids n out"
proof (induction rule: generate_loop.induct)
  case (finished idx)
  then show ?case by simp
next
  case (forward_raises idx e k)
  then show ?case by simp
next
  case (multinomial_raises idx probs e k)
  then show ?case by simp
next
  case (step idx probs idx_next k r)
  have ne: "list_all (\<lambda>row. row \<noteq> []) idx"
    using assms step.prems(1) step.hyps(1) by (rule next_token_probs_Inr_nonempty)
  with step assms have draw: "list_all2 (\<lambda>row s. \<exists>j<n. s = [int j]) idx idx_next"
    using multinomial_next_Inr[of self n idx idx_next] by (simp add: next_token_probs_valid)
  have "valid_ids n (cat idx idx_next)"
    using cat_draw(2)[OF draw] step.prems by simp
  with step show ?case by simp
qed

lemma positive_size:
  assumes "valid_ids n idx" "has_shape idx B T" "0 < B" "0 < T"
  shows "0 < n"
proof -
  from assms(2,3) have "idx \<noteq> []" by (auto simp: has_shape_def)
  then have row: "hd idx \<in> set idx" by simp
  with assms(2,4) have "hd idx \<noteq> []" by (auto simp: has_shape_def list_all_iff)
  then have "last (hd idx) \<in> set (hd idx)" by simp
  with row assms(1) have "0 \<le> last (hd idx) \<and> last (hd idx) < int n"
    by (auto simp: valid_ids_def list_all_iff)
  then show ?thesis by simp
qed

inductive_cases generate_loop_0E: "generate_loop self idx 0 r"

lemma example_probs: "next_token_probs example_model [[0]] = Inr [[1 / 2, 1 / 2]]"
  by (simp add: next_token_probs_def last_time_step_def softmax_def forward_def example_model_def
      Embedding_forward_def embedding_row_def)

lemma example_draw: "multinomial [[1 / 2, 1 / 2]] (Inr [[1]])"
  by (rule multinomial.drawn) (simp add: categories_def)

lemma example_generate: "generate example_model [[0]] 1 (Inr [[0, 1]])"
proof -
  have "generate_loop example_model (cat [[0]] [[1]]) 0 (Inr [[0, 1]])"
    by (simp add: cat_def generate_loop.finished)
  with example_probs example_draw have "generate_loop example_model [[0]] (Suc 0) (Inr [[0, 1]])"
    by (rule generate_loop.step)
  then show ?thesis by (simp add: generate_def)
qed

text \<open>
  Claim C4.  The distribution from which a step of \<open>generate\<close> draws is the softmax of the
  table row of the last id of each context: two batches of valid, non-empty contexts with
  the same last ids give the same distributions, whatever their earlier ids.
\<close>

theorem next_token_distribution_last_only:
  assumes "wf_model self n"
    and "valid_ids n idx1" and "list_all (\<lambda>row. row \<noteq> []) idx1"
    and "valid_ids n idx2" and "list_all (\<lambda>row. row \<noteq> []) idx2"
    and "map last idx1 = map last idx2"
  shows "next_token_probs self idx1 = next_token_probs self idx2
       \<and> next_token_probs self idx1
           = Inr (map (\<lambda>i. softmax (weight (token_embedding_table self) ! nat i)) (map last idx1))"
  using assms by (simp add: next_token_probs_valid)

theorem next_token_distribution_last_only_witness:
  "wf_model example_model 2
   \<and> valid_ids 2 [[0, 1, 0]] \<and> list_all (\<lambda>row. row \<noteq> []) [[0, 1, 0 :: int]]
   \<and> valid_ids 2 [[1, 0]] \<and> list_all (\<lambda>row. row \<noteq> []) [[1, 0 :: int]]
   \<and> map last [[0, 1, 0 :: int]] = map last [[1, 0]]
   \<and> next_token_probs example_model [[0, 1, 0]] = next_token_probs example_model [[1, 0]]"
  using next_token_distribution_last_only[of example_model 2 "[[0, 1, 0]]" "[[1, 0]]"]
  by (simp add: example_model_wf valid_ids_def)

text \<open>
  Claim C3, as stated, fails on the empty seed: its ids are all in range, there being
  none, and generating one token from it raises \<open>IndexError\<close> and returns nothing.
\<close>

theorem generate_empty_seed_raises:
  "valid_ids 2 [[]] \<and> generate example_model [[]] 1 (Inl IndexError)
   \<and> \<not> (\<exists>out. generate example_model [[]] 1 (Inr out))"
proof -
  have probs: "next_token_probs example_model [[]] = Inl IndexError"
    by (simp add: next_token_probs_def last_time_step_def forward_def example_model_def
        Embedding_forward_def)
  then have "generate_loop example_model [[]] (Suc 0) (Inl IndexError)"
    by (rule generate_loop.forward_raises)
  moreover have "\<not> generate_loop example_model [[]] (Suc 0) (Inr out)" for out
    using probs by (auto elim: generate_loop.cases)
  ultimately show ?thesis by (simp add: generate_def valid_ids_def)
qed

text \<open>
  Claim C3, amended.  For seeds that are not empty (or for no steps at all), all ids in
  \<open>[0, n)\<close>, and a number of steps that is not negative: \<open>generate\<close> returns, every
  outcome is a returned tensor, and each of its rows has the length of the seed plus the
  number of steps and starts with the seed.
\<close>

theorem generate_extends_seed:
  assumes "wf_model self n" and "has_shape idx B T" and "valid_ids n idx"
    and "0 < B" and "0 < T \<or> steps = 0" and "0 \<le> steps"
  shows "(\<exists>out. generate self idx steps (Inr out))
       \<and> (\<forall>r. generate self idx steps r \<longrightarrow>
             (\<exists>out. r = Inr out \<and> length out = B
                \<and> (\<forall>b<B. int (length (out ! b)) = int T + steps \<and> take T (out ! b) = idx ! b)))"
proof (cases "steps = 0")
  case True
  have "generate self idx steps (Inr idx)"
    using True by (simp add: generate_def generate_loop.finished)
  moreover have "\<forall>r. generate self idx steps r \<longrightarrow> r = Inr idx"
    using True by (auto simp: generate_def elim: generate_loop_0E)
  moreover have "length idx = B \<and> (\<forall>b<B. int (length (idx ! b)) = int T + steps \<and> take T (idx ! b) = idx ! b)"
    using assms(2) True by (auto simp: has_shape_def list_all_length)
  ultimately show ?thesis by blast
next
  case False
  with assms have T: "0 < T" by simp
  then have ne: "list_all (\<lambda>row. row \<noteq> []) idx"
    using assms(2) by (auto simp: has_shape_def list_all_iff)
  have "0 < n" using assms(3,2,4) T by (rule positive_size)
  then have "\<exists>out. generate self idx steps (Inr out)"
    unfolding generate_def using generate_loop_exists[OF assms(1) _ assms(3) ne] by blast
  moreover have "\<exists>out. r = Inr out \<and> length out = B
                \<and> (\<forall>b<B. int (length (out ! b)) = int T + steps \<and> take T (out ! b) = idx ! b)"
    if "generate self idx steps r" for r
  proof -
    from that have "generate_loop self idx (nat steps) r" by (simp add: generate_def)
    from generate_loop_returns[OF assms(1) this assms(3,2) T]
    obtain out where out: "r = Inr out" "has_shape out B (T + nat steps)" "map (take T) out = idx"
      by blast
    from out(2) have "length out = B" and "\<forall>b<B. length (out ! b) = T + nat steps"
      by (simp_all add: has_shape_def list_all_length)
    moreover from this out(3) have "\<forall>b<B. take T (out ! b) = idx ! b"
      by (metis nth_map)
    ultimately show ?thesis using out(1) assms(6) by auto
  qed
  ultimately show ?thesis by blast
qed

theorem generate_extends_seed_witness:
  "wf_model example_model 2 \<and> has_shape [[0 :: int]] 1 1 \<and> valid_ids 2 [[0]]
   \<and> generate example_model [[0]] 1 (Inr [[0, 1]])
   \<and> (\<exists>out. generate example_model [[0]] 1 (Inr out) \<and> length out = 1
         \<and> int (length (out ! 0)) = 2 \<and> take 1 (out ! 0) = [0])"
proof -
  have h: "wf_model example_model 2" "has_shape [[0 :: int]] 1 1" "valid_ids 2 [[0]]"
    by (simp_all add: example_model_wf has_shape_def valid_ids_def)
  from generate_extends_seed[OF h, of 1] obtain out
    where "generate example_model [[0]] 1 (Inr out)" "length out = 1"
      "int (length (out ! 0)) = 2" "take 1 (out ! 0) = [0]"
    by auto
  with h example_generate show ?thesis by blast
qed

text \<open>
  Claim C5.  For seeds with all ids in \<open>[0, n)\<close>, every id of every tensor that \<open>generate\<close>
  returns lies in \<open>[0, n)\<close>; and for seeds that are not empty it does return one.
\<close>

theorem generate_ids_in_range:
  assumes "wf_model self n" and "valid_ids n idx"
  shows "(\<forall>out. generate self idx steps (Inr out) \<longrightarrow> valid_ids n out)
       \<and> (has_shape idx B T \<and> 0 < B \<and> 0 < T \<longrightarrow> (\<exists>out. generate self idx steps (Inr out)))"
proof -
  have "valid_ids n out" if "generate self idx steps (Inr out)" for out
    using that assms generate_loop_valid[of self n idx "nat steps" "Inr out" out]
    by (simp add: generate_def)
  moreover have "\<exists>out. generate self idx steps (Inr out)"
    if shape: "has_shape idx B T" and "0 < B" and "0 < T"
  proof -
    have "0 < n" using assms(2) that by (rule positive_size)
    moreover have "list_all (\<lambda>row. row \<noteq> []) idx"
      using shape \<open>0 < T\<close> by (auto simp: has_shape_def list_all_iff)
    ultimately show ?thesis
      unfolding generate_def using generate_loop_exists[OF assms(1) _ assms(2)] by blast
  qed
  ultimately show ?thesis by blast
qed

theorem generate_ids_in_range_witness:
  "wf_model example_model 2 \<and> valid_ids 2 [[0]] \<and> has_shape [[0 :: int]] 1 1
   \<and> generate example_model [[0]] 1 (Inr [[0, 1]]) \<and> valid_ids 2 [[0, 1]]
   \<and> (\<exists>out. generate example_model [[0]] 1 (Inr out))"
proof -
  have h: "wf_model example_model 2" "valid_ids 2 [[0]]"
    by (simp_all add: example_model_wf valid_ids_def)
  have s: "has_shape [[0 :: int]] 1 1" by (simp add: has_shape_def)
  from generate_ids_in_range[OF h, of 1 1 1] s example_generate
  have "valid_ids 2 [[0, 1]]" and "\<exists>out. generate example_model [[0]] 1 (Inr out)"
    by auto
  with h s example_generate show ?thesis by blast
qed

subsection \<open>Saving and loading the parameters\<close>

lemma forward_weight_only:
  "weight (token_embedding_table a) = weight (token_embedding_table b)
     \<Longrightarrow> forward a idx targets = forward b idx targets"
proof -
  assume "weight (token_embedding_table a) = weight (token_embedding_table b)"
  then have "embedding_row (token_embedding_table a) = embedding_row (token_embedding_table b)"
    by (simp add: fun_eq_iff embedding_row_def)
  then show ?thesis by (simp add: forward_def Embedding_forward_def)
qed

lemma load_state_dict_own:
  assumes "wf_model trained n"
  shows "load_state_dict (BigramLanguageModel_init n init) (state_dict trained) = Inr trained"
  using assms
  by (simp add: load_state_dict_def state_dict_def BigramLanguageModel_init_def Embedding_init_def
      wf_model_def Let_def)

text \<open>
  Claim C9.  Saving the state dict of a predictor for a vocabulary of size \<open>n\<close>, loading
  the file and loading the state dict into a freshly constructed predictor of size \<open>n\<close>
  succeeds, and the loaded predictor returns the same logits as the saved one on every
  batch.
\<close>

theorem state_dict_roundtrip:
  assumes "wf_model trained n"
  shows "\<exists>sd loaded.
           torch_load f (torch_save (state_dict trained) f files) = Inr sd
         \<and> load_state_dict (BigramLanguageModel_init n init) sd = Inr loaded
         \<and> forward loaded inputs None = forward trained inputs None"
  using load_state_dict_own[OF assms] by (simp add: torch_load_def torch_save_def)

theorem state_dict_roundtrip_witness:
  "wf_model example_model 2
   \<and> (\<exists>sd loaded.
         torch_load ''m.pth'' (torch_save (state_dict example_model) ''m.pth'' Map.empty) = Inr sd
       \<and> load_state_dict (BigramLanguageModel_init 2 (\<lambda>i j. 0)) sd = Inr loaded
       \<and> forward loaded [[0, 1]] None = forward example_model [[0, 1]] None)"
  using state_dict_roundtrip[OF example_model_wf, of "''m.pth''" Map.empty "\<lambda>i j. 0" "[[0, 1]]"]
  by (simp add: example_model_wf)

end
